theory Spec2Isabelle
  imports Complex_Main
begin

section \<open>The density curve and its shaded region (normal\_quantiles.py)\<close>

text \<open>
  The only function the program defines is \<open>plot_shaded_normal\<close>. Before it
  draws anything it computes four arrays:
  \<^verbatim>\<open>
    x = np.linspace(-4, 4, 1000)
    y = norm.pdf(x)
    x_fill = x[x <= x_q]
    y_fill = y[x <= x_q]
  \<close>
  The arrays are modelled as lists. Their float64 entries are modelled as reals
  and computed without rounding, so the entries of the model are not the entries
  of the code's arrays. The statements below do not depend on the entries: they
  use the lengths of the arrays, the order of the x-values, and the comparison
  of an x-value with the cutoff, which is exact on floats.
\<close>

subsection \<open>numpy.linspace\<close>

text \<open>
  \<open>linspace start stop num\<close> with the default \<open>endpoint=True\<close>:
  \<open>div = num - 1\<close>, \<open>delta = stop - start\<close>, \<open>y = arange(0, num)\<close>; when
  \<open>div > 0\<close> the step is \<open>delta / div\<close> and \<open>y\<close> becomes \<open>y * step\<close> (or
  \<open>y / div * delta\<close> when the step is zero), otherwise \<open>y * delta\<close>; then
  \<open>start\<close> is added, and for \<open>num > 1\<close> the last entry is overwritten by \<open>stop\<close>.
  A negative \<open>num\<close> raises in numpy; \<open>num\<close> is a natural number here.
\<close>

definition arange :: "nat \<Rightarrow> real list" where
  "arange num = map real [0..<num]"

definition linspace :: "real \<Rightarrow> real \<Rightarrow> nat \<Rightarrow> real list" where
  "linspace start stop num =
     (let dv = num - 1;
          delta = stop - start;
          y0 = arange num;
          y1 = (if dv > 0
                then (let step = delta / real dv
                      in if step = 0 then map (\<lambda>v. v / real dv * delta) y0
                         else map (\<lambda>v. v * step) y0)
                else map (\<lambda>v. v * delta) y0);
          y2 = map (\<lambda>v. v + start) y1
      in if num > 1 then butlast y2 @ [stop] else y2)"

subsection \<open>scipy.stats.norm.pdf\<close>

text \<open>
  The standard normal density, \<open>exp (- x\<^sup>2 / 2) / sqrt (2 pi)\<close>, again without
  rounding. Only the number of y-values matters below.
\<close>

definition norm_pdf :: "real \<Rightarrow> real" where
  "norm_pdf x = exp (- (x\<^sup>2) / 2) / sqrt (2 * pi)"

subsection \<open>Boolean-mask indexing\<close>

text \<open>
  \<open>a[mask]\<close> keeps the entries of \<open>a\<close> at the positions where \<open>mask\<close> is true,
  in order. numpy raises IndexError when the mask and the array differ in length:
  that is the result \<open>None\<close>.
\<close>

fun bool_index :: "'a list \<Rightarrow> bool list \<Rightarrow> 'a list option" where
  "bool_index [] [] = Some []"
| "bool_index (a # as) (b # bs) =
     (case bool_index as bs of
        None \<Rightarrow> None
      | Some r \<Rightarrow> Some (if b then a # r else r))"
| "bool_index _ _ = None"

definition le_mask :: "real list \<Rightarrow> real \<Rightarrow> bool list" where
  "le_mask x x_q = map (\<lambda>v. v \<le> x_q) x"

subsection \<open>The curve and the region\<close>

type_synonym curve = "real list \<times> real list"

definition build_density_curve :: "real \<Rightarrow> real \<Rightarrow> nat \<Rightarrow> curve" where
  "build_density_curve domain_min domain_max sample_count =
     (let x = linspace domain_min domain_max sample_count;
          y = map norm_pdf x
      in (x, y))"

definition shade_left_of :: "curve \<Rightarrow> real \<Rightarrow> curve option" where
  "shade_left_of c x_q =
     (case c of (x, y) \<Rightarrow>
        (case bool_index x (le_mask x x_q) of
           None \<Rightarrow> None
         | Some x_fill \<Rightarrow>
             (case bool_index y (le_mask x x_q) of
                None \<Rightarrow> None
              | Some y_fill \<Rightarrow> Some (x_fill, y_fill))))"

subsection \<open>Floats that are not finite\<close>




subsection \<open>Errors\<close>


subsection \<open>plot\_shaded\_normal\<close>



subsection \<open>The two panels\<close>






section \<open>Facts about the grid\<close>

lemma length_arange: "length (arange n) = n"
  by (simp add: arange_def)

lemma length_linspace: "length (linspace a b n) = n"
  by (cases "n > 1") (simp_all add: linspace_def Let_def length_arange)

text \<open>Without rounding, the overwritten last entry is the value already there.\<close>

lemma butlast_map_upt_snoc:
  assumes "0 < n" and "f (n - 1) = v"
  shows "butlast (map f [0..<n]) @ [v] = map f [0..<n]"
proof -
  obtain m where n: "n = Suc m" using assms(1) by (cases n) auto
  with assms(2) show ?thesis by simp
qed

lemma linspace_closed_form:
  assumes "1 < n"
  shows "linspace a b n = map (\<lambda>i. a + real i * ((b - a) / real (n - 1))) [0..<n]"
proof -
  define s where "s = (b - a) / real (n - 1)"
  let ?f = "\<lambda>i. a + real i * s"
  have pos: "0 < n - 1" using assms by simp
  have npos: "0 < n" using assms by simp
  have rpos: "real (n - 1) \<noteq> 0" using pos by simp
  have zero: "v / real (n - 1) * (b - a) = v * s" for v
    by (simp add: s_def)
  have y2: "map (\<lambda>v. v + a)
              (if s = 0
               then map (\<lambda>v. v / real (n - 1) * (b - a)) (arange n)
               else map (\<lambda>v. v * s) (arange n))
            = map ?f [0..<n]"
  proof -
    have "map (\<lambda>v. v / real (n - 1) * (b - a)) (arange n) = map (\<lambda>v. v * s) (arange n)"
      by (simp only: zero)
    then have "(if s = 0
                then map (\<lambda>v. v / real (n - 1) * (b - a)) (arange n)
                else map (\<lambda>v. v * s) (arange n)) = map (\<lambda>v. v * s) (arange n)"
      by (simp only: if_cancel)
    moreover have "map (\<lambda>v. v + a) (map (\<lambda>v. v * s) (arange n)) = map ?f [0..<n]"
      by (simp add: arange_def o_def add.commute)
    ultimately show ?thesis by (simp only:)
  qed
  have last: "?f (n - 1) = b"
    using rpos by (simp add: s_def)
  have "linspace a b n =
        butlast (map (\<lambda>v. v + a)
              (if s = 0
               then map (\<lambda>v. v / real (n - 1) * (b - a)) (arange n)
               else map (\<lambda>v. v * s) (arange n))) @ [b]"
    unfolding linspace_def Let_def s_def using assms pos by (simp only: if_True)
  also have "\<dots> = butlast (map ?f [0..<n]) @ [b]"
    by (simp only: y2)
  also have "\<dots> = map ?f [0..<n]"
    using butlast_map_upt_snoc[of n ?f b] npos last by blast
  finally show ?thesis by (simp only: s_def)
qed

lemma linspace_one: "linspace a b (Suc 0) = [a]"
  by (simp add: linspace_def arange_def)

lemma linspace_zero: "linspace a b 0 = []"
  by (simp add: linspace_def arange_def)

lemma linspace_nth:
  assumes "1 < n" and "i < n"
  shows "linspace a b n ! i = a + real i * ((b - a) / real (n - 1))"
  using assms by (simp only: linspace_closed_form nth_map_upt) simp

lemma sorted_wrt_map_upt:
  assumes "\<And>i j. i < j \<Longrightarrow> j < n \<Longrightarrow> R (f i) (f j)"
  shows "sorted_wrt R (map f [0..<n])"
  using assms by (simp add: sorted_wrt_iff_nth_less)

lemma linspace_strict:
  assumes "a < b"
  shows "sorted_wrt (<) (linspace a b n)"
proof (cases "1 < n")
  case True
  define s where "s = (b - a) / real (n - 1)"
  have step: "0 < s" using assms True by (simp add: s_def)
  have "sorted_wrt (<) (map (\<lambda>i. a + real i * s) [0..<n])"
    by (rule sorted_wrt_map_upt) (use step in simp)
  then show ?thesis
    by (simp only: linspace_closed_form[OF True] s_def)
next
  case False
  then have "n = 0 \<or> n = Suc 0" by auto
  then show ?thesis by (auto simp: linspace_zero linspace_one)
qed

lemma linspace_sorted:
  assumes "a \<le> b"
  shows "sorted (linspace a b n)"
proof (cases "1 < n")
  case True
  define s where "s = (b - a) / real (n - 1)"
  have step: "0 \<le> s" using assms by (simp add: s_def)
  have "sorted (map (\<lambda>i. a + real i * s) [0..<n])"
    by (rule sorted_wrt_map_upt) (use step in \<open>simp add: mult_right_mono\<close>)
  then show ?thesis
    by (simp only: linspace_closed_form[OF True] s_def)
next
  case False
  then have "n = 0 \<or> n = Suc 0" by auto
  then show ?thesis by (auto simp: linspace_zero linspace_one)
qed

lemma linspace_bounds:
  assumes "a \<le> b" and "v \<in> set (linspace a b n)"
  shows "a \<le> v \<and> v \<le> b"
proof (cases "1 < n")
  case True
  define s where "s = (b - a) / real (n - 1)"
  have s0: "0 \<le> s" using assms(1) by (simp add: s_def)
  have "v \<in> set (map (\<lambda>i. a + real i * s) [0..<n])"
    using assms(2) by (simp only: linspace_closed_form[OF True] s_def)
  then obtain i where i: "i < n" and v: "v = a + real i * s"
    by auto
  have "real i \<le> real (n - 1)" using i by simp
  then have "real i * s \<le> real (n - 1) * s"
    using s0 by (rule mult_right_mono)
  also have "\<dots> = b - a" using True by (simp add: s_def)
  finally have "v \<le> b" using v by simp
  moreover have "0 \<le> real i * s" using s0 by simp
  then have "a \<le> v" using v by simp
  ultimately show ?thesis by simp
next
  case False
  then have "n = 0 \<or> n = Suc 0" by auto
  then show ?thesis using assms by (auto simp: linspace_zero linspace_one)
qed

section \<open>Facts about mask indexing\<close>

lemma bool_index_filter:
  "length bs = length as \<Longrightarrow>
   bool_index as bs = Some (map fst (filter snd (zip as bs)))"
  by (induction as bs rule: bool_index.induct) simp_all

lemma bool_index_le_mask_x:
  "bool_index x (le_mask x c) = Some (filter (\<lambda>v. v \<le> c) x)"
  by (induction x) (simp_all add: le_mask_def)

lemma bool_index_le_mask_y:
  "length y = length x \<Longrightarrow>
   bool_index y (le_mask x c) = Some (map snd (filter (\<lambda>p. fst p \<le> c) (zip x y)))"
proof (induction x arbitrary: y)
  case Nil
  then show ?case by (simp add: le_mask_def)
next
  case (Cons a x)
  then obtain b y' where y: "y = b # y'" by (cases y) auto
  with Cons.prems have "length y' = length x" by simp
  from Cons.IH[OF this] show ?case using y by (simp add: le_mask_def)
qed

lemma filter_fst_zip:
  "length y = length x \<Longrightarrow>
   map fst (filter (\<lambda>p. fst p \<le> c) (zip x y)) = filter (\<lambda>v. v \<le> (c::real)) x"
proof (induction x arbitrary: y)
  case Nil
  then show ?case by simp
next
  case (Cons a x)
  then obtain b y' where y: "y = b # y'" by (cases y) auto
  with Cons.prems have "length y' = length x" by simp
  from Cons.IH[OF this] show ?case using y by simp
qed

lemma shade_left_of_filter:
  assumes "length y = length x"
  shows "shade_left_of (x, y) c =
         Some (map fst (filter (\<lambda>p. fst p \<le> c) (zip x y)),
               map snd (filter (\<lambda>p. fst p \<le> c) (zip x y)))"
  using assms
  by (simp add: shade_left_of_def bool_index_le_mask_x bool_index_le_mask_y filter_fst_zip)

lemma filter_le_sorted_take:
  assumes "sorted (x :: real list)"
  shows "filter (\<lambda>v. v \<le> c) x = take (length (filter (\<lambda>v. v \<le> c) x)) x"
  using assms
proof (induction x)
  case Nil
  then show ?case by simp
next
  case (Cons a x)
  show ?case
  proof (cases "a \<le> c")
    case True
    with Cons show ?thesis by simp
  next
    case False
    with Cons.prems have "\<forall>v\<in>set x. \<not> v \<le> c" by auto
    then have "filter (\<lambda>v. v \<le> c) x = []" by (simp add: filter_empty_conv)
    with False show ?thesis by simp
  qed
qed

lemma filter_zip_sorted_take:
  assumes "sorted (x :: real list)" and "length y = length x"
  shows "filter (\<lambda>p. fst p \<le> c) (zip x y)
         = take (length (filter (\<lambda>v. v \<le> c) x)) (zip x y)"
  using assms
proof (induction x arbitrary: y)
  case Nil
  then show ?case by simp
next
  case (Cons a x)
  then obtain b y' where y: "y = b # y'" by (cases y) auto
  with Cons.prems have len: "length y' = length x" by simp
  show ?case
  proof (cases "a \<le> c")
    case True
    with Cons.IH[OF _ len] Cons.prems(1) y show ?thesis by simp
  next
    case False
    with Cons.prems(1) have "\<forall>v\<in>set x. \<not> v \<le> c" by auto
    then have "\<forall>p\<in>set (zip x y'). \<not> fst p \<le> c"
      by (auto dest: set_zip_leftD)
    then have "filter (\<lambda>p. fst p \<le> c) (zip x y') = []"
      and "filter (\<lambda>v. v \<le> c) x = []"
      using \<open>\<forall>v\<in>set x. \<not> v \<le> c\<close> by (simp_all add: filter_empty_conv)
    with False y show ?thesis by simp
  qed
qed

lemma shade_left_of_take:
  assumes "sorted x" and "length y = length x"
  shows "shade_left_of (x, y) c =
         Some (take (length (filter (\<lambda>v. v \<le> c) x)) x,
               take (length (filter (\<lambda>v. v \<le> c) x)) y)"
  using assms
  by (simp add: shade_left_of_filter filter_zip_sorted_take take_zip take_map[symmetric]
           del: take_map)

section \<open>The shaded region\<close>

lemma build_density_curve_fst: "fst (build_density_curve lo hi n) = linspace lo hi n"
  by (simp add: build_density_curve_def Let_def)

lemma build_density_curve_snd:
  "snd (build_density_curve lo hi n) = map norm_pdf (linspace lo hi n)"
  by (simp add: build_density_curve_def Let_def)

lemma build_density_curve_pair:
  "build_density_curve lo hi n = (linspace lo hi n, map norm_pdf (linspace lo hi n))"
  by (simp add: build_density_curve_def Let_def)

lemma filter_zip_none:
  assumes "\<forall>v\<in>set x. c < (v::real)"
  shows "filter (\<lambda>p. fst p \<le> c) (zip x y) = []"
  using assms by (auto simp: filter_empty_conv dest!: set_zip_leftD)

lemma filter_zip_all:
  assumes "\<forall>v\<in>set x. (v::real) \<le> c"
  shows "filter (\<lambda>p. fst p \<le> c) (zip x y) = zip x y"
  using assms by (auto simp: filter_id_conv dest!: set_zip_leftD)

text \<open>
  Claim C7. The region left of a cutoff holds exactly the samples of the curve
  whose x-value is at most the cutoff, in the order of the curve. For a curve
  over \<open>[lo, hi]\<close>, a cutoff below \<open>lo\<close> gives the empty region and a cutoff
  at or above \<open>hi\<close> gives the whole curve; on the program's domain \<open>[-4, 4]\<close>
  the cutoffs \<open>-10\<close> and \<open>10\<close> are such cases.
\<close>

theorem shade_left_of_selects:
  assumes "lo \<le> hi"
  shows "let crv = build_density_curve lo hi n;
             kept = filter (\<lambda>p. fst p \<le> c) (zip (fst crv) (snd crv))
         in shade_left_of crv c = Some (map fst kept, map snd kept)
            \<and> (c < lo \<longrightarrow> shade_left_of crv c = Some ([], []))
            \<and> (hi \<le> c \<longrightarrow> shade_left_of crv c = Some crv)"
proof -
  let ?x = "linspace lo hi n"
  let ?y = "map norm_pdf ?x"
  let ?kept = "filter (\<lambda>p. fst p \<le> c) (zip ?x ?y)"
  have len: "length ?y = length ?x" by simp
  have sel: "shade_left_of (?x, ?y) c = Some (map fst ?kept, map snd ?kept)"
    by (rule shade_left_of_filter[OF len])
  have below: "?kept = []" if "c < lo"
  proof (rule filter_zip_none)
    show "\<forall>v\<in>set ?x. c < v"
      using linspace_bounds[OF assms] that by fastforce
  qed
  have above: "?kept = zip ?x ?y" if "hi \<le> c"
  proof (rule filter_zip_all)
    show "\<forall>v\<in>set ?x. v \<le> c"
      using linspace_bounds[OF assms] that by fastforce
  qed
  have "c < lo \<longrightarrow> shade_left_of (?x, ?y) c = Some ([], [])"
    using sel below by simp
  moreover have "hi \<le> c \<longrightarrow> shade_left_of (?x, ?y) c = Some (?x, ?y)"
    using sel above by (simp add: map_fst_zip map_snd_zip)
  ultimately show ?thesis
    using sel by (simp add: build_density_curve_pair Let_def)
qed

theorem shade_left_of_selects_witness:
  "(-4::real) \<le> 4
   \<and> shade_left_of (build_density_curve (-4) 4 1000) (-10) = Some ([], [])
   \<and> shade_left_of (build_density_curve (-4) 4 1000) 10
       = Some (build_density_curve (-4) 4 1000)"
proof -
  have dom: "(-4::real) \<le> 4" by simp
  have below: "(-10::real) < -4" and above: "(4::real) \<le> 10" by simp_all
  have "shade_left_of (build_density_curve (-4) 4 1000) (-10) = Some ([], [])"
    using shade_left_of_selects[OF dom, of 1000 "-10"] below unfolding Let_def by blast
  moreover have "shade_left_of (build_density_curve (-4) 4 1000) 10
                 = Some (build_density_curve (-4) 4 1000)"
    using shade_left_of_selects[OF dom, of 1000 10] above unfolding Let_def by blast
  ultimately show ?thesis using dom by blast
qed


text \<open>
  Claim C9. The x-values of the curve are strictly increasing and one mask
  selects from both arrays, so for every cutoff the region is a prefix of the
  curve: both of its arrays have the same length, each is the curve's array cut
  at that length, and the pair at every index of the region is the pair of the
  curve at the same index.
\<close>

theorem shaded_region_is_prefix:
  assumes "lo < hi"
  shows "let crv = build_density_curve lo hi n; x = fst crv; y = snd crv
         in sorted_wrt (<) x
            \<and> (\<exists>x_fill y_fill.
                  shade_left_of crv c = Some (x_fill, y_fill)
                  \<and> length y_fill = length x_fill
                  \<and> length x_fill \<le> length x
                  \<and> x_fill = take (length x_fill) x
                  \<and> y_fill = take (length x_fill) y
                  \<and> (\<forall>i<length x_fill. (x_fill ! i, y_fill ! i) = (x ! i, y ! i)))"
proof -
  let ?x = "linspace lo hi n"
  let ?y = "map norm_pdf ?x"
  define k where "k = length (filter (\<lambda>v. v \<le> c) ?x)"
  have strict: "sorted_wrt (<) ?x" by (rule linspace_strict[OF assms])
  have srt: "sorted ?x" using assms by (intro linspace_sorted) simp
  have len: "length ?y = length ?x" by simp
  have k_le: "k \<le> length ?x" unfolding k_def by (rule length_filter_le)
  have region: "shade_left_of (?x, ?y) c = Some (take k ?x, take k ?y)"
    unfolding k_def by (rule shade_left_of_take[OF srt len])
  have lx: "length (take k ?x) = k" using k_le by simp
  have ly: "length (take k ?y) = k" using k_le by simp
  have idx: "\<forall>i<length (take k ?x). (take k ?x ! i, take k ?y ! i) = (?x ! i, ?y ! i)"
    using lx by simp
  have "\<exists>x_fill y_fill.
          shade_left_of (?x, ?y) c = Some (x_fill, y_fill)
          \<and> length y_fill = length x_fill
          \<and> length x_fill \<le> length ?x
          \<and> x_fill = take (length x_fill) ?x
          \<and> y_fill = take (length x_fill) ?y
          \<and> (\<forall>i<length x_fill. (x_fill ! i, y_fill ! i) = (?x ! i, ?y ! i))"
  proof (intro exI conjI)
    show "shade_left_of (?x, ?y) c = Some (take k ?x, take k ?y)" by (rule region)
    show "length (take k ?y) = length (take k ?x)" using lx ly by simp
    show "length (take k ?x) \<le> length ?x" by simp
    show "take k ?x = take (length (take k ?x)) ?x" using lx by simp
    show "take k ?y = take (length (take k ?x)) ?y" using lx by simp
    show "\<forall>i<length (take k ?x). (take k ?x ! i, take k ?y ! i) = (?x ! i, ?y ! i)"
      by (rule idx)
  qed
  with strict show ?thesis
    by (simp only: build_density_curve_pair Let_def fst_conv snd_conv) 
qed

lemma linspace_hd_kept:
  assumes "1 < n" and "lo \<le> c"
  shows "0 < length (filter (\<lambda>v. v \<le> c) (linspace lo hi n))"
proof -
  have "linspace lo hi n ! 0 = lo" using assms(1) by (simp add: linspace_nth)
  moreover have "0 < length (linspace lo hi n)" using assms(1) by (simp add: length_linspace)
  ultimately have "lo \<in> set (linspace lo hi n)" by (metis nth_mem)
  with assms(2) have "filter (\<lambda>v. v \<le> c) (linspace lo hi n) \<noteq> []"
    by (auto simp: filter_empty_conv)
  then show ?thesis by simp
qed

theorem shaded_region_is_prefix_witness:
  "(-4::real) < 4
   \<and> (\<exists>x_fill y_fill.
         shade_left_of (build_density_curve (-4) 4 1000) 0 = Some (x_fill, y_fill)
         \<and> 0 < length x_fill
         \<and> (x_fill ! 0, y_fill ! 0) = (-4, norm_pdf (-4)))"
proof -
  have dom: "(-4::real) < 4" by simp
  let ?x = "linspace (-4) 4 1000"
  let ?y = "map norm_pdf ?x"
  from shaded_region_is_prefix[OF dom, of 1000 0]
  obtain x_fill y_fill where
    r: "shade_left_of (build_density_curve (-4) 4 1000) 0 = Some (x_fill, y_fill)"
    and al: "\<forall>i<length x_fill. (x_fill ! i, y_fill ! i) = (?x ! i, ?y ! i)"
    unfolding Let_def build_density_curve_fst build_density_curve_snd by blast
  have "shade_left_of (build_density_curve (-4) 4 1000) 0
        = Some (take (length (filter (\<lambda>v. v \<le> 0) ?x)) ?x,
                take (length (filter (\<lambda>v. v \<le> 0) ?x)) ?y)"
    unfolding build_density_curve_pair
    by (rule shade_left_of_take) (simp_all add: linspace_sorted)
  with r have xf: "x_fill = take (length (filter (\<lambda>v. v \<le> 0) ?x)) ?x" by simp
  have "0 < length (filter (\<lambda>v. v \<le> 0) ?x)"
    by (rule linspace_hd_kept) simp_all
  moreover have "length (filter (\<lambda>v. v \<le> 0) ?x) \<le> length ?x" by (rule length_filter_le)
  ultimately have pos: "0 < length x_fill" using xf by simp
  have x0: "?x ! 0 = -4" by (simp add: linspace_nth)
  have y0: "?y ! 0 = norm_pdf (-4)" using x0 by (simp add: length_linspace)
  from al pos have "(x_fill ! 0, y_fill ! 0) = (?x ! 0, ?y ! 0)" by blast
  with x0 y0 have "(x_fill ! 0, y_fill ! 0) = (-4, norm_pdf (-4))" by simp
  with r pos dom show ?thesis by blast
qed

lemma linspace_last: "1 < n \<Longrightarrow> linspace lo hi n ! (n - 1) = hi"
proof -
  assume n: "1 < n"
  then have "linspace lo hi n ! (n - 1) = lo + real (n - 1) * ((hi - lo) / real (n - 1))"
    by (intro linspace_nth) simp_all
  also have "\<dots> = hi" using n by simp
  finally show ?thesis .
qed

lemma build_density_curve_lengths:
  "length (fst (build_density_curve lo hi n)) = n \<and> length (snd (build_density_curve lo hi n)) = n"
  by (simp add: build_density_curve_fst build_density_curve_snd length_linspace)

text \<open>
  For a cutoff inside the plotting domain, \<open>-4 \<le> c < 4\<close>, the region keeps
  at least the first and at most the first 999 of the 1000 samples.
\<close>

lemma shade_cutoff_inside_domain:
  assumes "- 4 \<le> c" and "c < 4"
  shows "\<exists>k. 1 \<le> k \<and> k \<le> 999
             \<and> shade_left_of (build_density_curve (- 4) 4 1000) c
                 = Some (take k (linspace (- 4) 4 1000),
                         take k (map norm_pdf (linspace (- 4) 4 1000)))"
proof -
  let ?x = "linspace (- 4) 4 1000"
  let ?k = "length (filter (\<lambda>v. v \<le> c) ?x)"
  have "0 < ?k" by (rule linspace_hd_kept) (use assms in simp_all)
  then have k1: "1 \<le> ?k" by linarith
  have "?k < length ?x"
  proof (rule length_filter_less)
    have "?x ! (1000 - 1) = 4" by (rule linspace_last) simp
    moreover have "1000 - 1 < length ?x" by (simp add: length_linspace)
    ultimately show "4 \<in> set ?x" by (metis nth_mem)
    show "\<not> 4 \<le> c" using assms by simp
  qed
  then have k999: "?k \<le> 999" by (simp add: length_linspace)
  have "shade_left_of (build_density_curve (- 4) 4 1000) c
        = Some (take ?k ?x, take ?k (map norm_pdf ?x))"
    unfolding build_density_curve_pair
    by (rule shade_left_of_take) (simp_all add: linspace_sorted)
  with k1 k999 show ?thesis by blast
qed

section \<open>Results that are not finite, and errors\<close>



lemma filter_zip_never:
  "(\<And>v. \<not> P v) \<Longrightarrow> filter (\<lambda>p. P (fst p)) (zip x y) = []"
  by (simp add: filter_empty_conv)

lemma filter_zip_always:
  "(\<And>v. P v) \<Longrightarrow> filter (\<lambda>p. P (fst p)) (zip x y) = zip x y"
  by simp









end
